theory Spec2Isabelle
  imports Main "HOL-Library.Word"
begin

unbundle bit_operations_syntax

section \<open>The button driver of IronOS: data\<close>

text \<open>
  The development follows \<^verbatim>\<open>source/Core/Drivers/Buttons.cpp\<close>: the polled classifier
  \<^verbatim>\<open>getButtonState\<close> and the two blocking helpers \<^verbatim>\<open>waitForButtonPress\<close> and
  \<^verbatim>\<open>waitForButtonPressOrTimeout\<close>.

  \<^verbatim>\<open>TickType_t\<close> is the tick counter of the scheduler. The variables of the file that
  receive its values (\<^verbatim>\<open>lastButtonTime\<close>, \<^verbatim>\<open>timeout\<close>) are \<^verbatim>\<open>uint32_t\<close>, and the
  counter is taken to be 32 bits wide as well: subtraction and addition wrap around,
  comparison is unsigned.
\<close>

type_synonym uint8_t = "8 word"
type_synonym uint16_t = "16 word"
type_synonym uint32_t = "32 word"
type_synonym TickType_t = "32 word"

text \<open>
  Modelled from the spec: the enumeration \<^verbatim>\<open>ButtonState\<close> is declared in
  \<^verbatim>\<open>Buttons.hpp\<close>. The spec lists its seven values (None, AShort, BShort, Both, ALong,
  BLong, BothLong); \<^verbatim>\<open>BUTTON_NONE\<close> is the value that the loops of the blocking
  helpers test as false.
\<close>

datatype ButtonState =
    BUTTON_NONE
  | BUTTON_F_SHORT
  | BUTTON_B_SHORT
  | BUTTON_F_LONG
  | BUTTON_B_LONG
  | BUTTON_BOTH
  | BUTTON_BOTH_LONG

text \<open>The local \<^verbatim>\<open>struct State\<close> of \<^verbatim>\<open>getButtonState\<close>, with its field names.\<close>

record State =
  state :: uint8_t
  wasShortPress :: bool
  totalState :: uint8_t
  initialPressTime :: TickType_t
  stateChangeTime :: TickType_t

text \<open>
  The variables that outlive a call: the global \<^verbatim>\<open>lastButtonTime\<close> and the function's
  \<^verbatim>\<open>static State state\<close>.
\<close>

record Memory =
  lastButtonTime :: uint32_t
  classifier :: State

text \<open>Both are zero when the program starts (the initialisers of lines 11 and 27-49).\<close>

definition State_initial :: State where
  "State_initial =
     \<lparr>state = 0, wasShortPress = False, totalState = 0,
      initialPressTime = 0, stateChangeTime = 0\<rparr>"

definition Memory_initial :: Memory where
  "Memory_initial = \<lparr>lastButtonTime = 0, classifier = State_initial\<rparr>"

text \<open>
  Modelled from the spec: \<^verbatim>\<open>getButtonA\<close>, \<^verbatim>\<open>getButtonB\<close> and \<^verbatim>\<open>xTaskGetTickCount\<close>
  belong to the board support package and to the scheduler. The spec gives the two
  button reads as instantaneous pressed/not-pressed booleans and the tick as a counter.
  One \<open>Reading\<close> is what a single call of \<^verbatim>\<open>getButtonState\<close> obtains from them.
\<close>

record Reading =
  getButtonA :: bool
  getButtonB :: bool
  xTaskGetTickCount :: TickType_t

section \<open>The classifier\<close>

text \<open>
  Line 25: \<^verbatim>\<open>constexpr uint16_t LONG_PRESS_MIN = TICKS_100MS * 4\<close>. The macro
  \<^verbatim>\<open>TICKS_100MS\<close> is defined outside the file and is a parameter here; the product is
  stored in 16 bits.
\<close>

definition LONG_PRESS_MIN :: "nat \<Rightarrow> uint16_t" where
  "LONG_PRESS_MIN TICKS_100MS = of_nat (TICKS_100MS * 4)"

text \<open>Line 52: bit 0 is button A, bit 1 is button B.\<close>

definition currentState :: "Reading \<Rightarrow> uint8_t" where
  "currentState r =
     push_bit 0 (of_bool (getButtonA r)) OR push_bit 1 (of_bool (getButtonB r))"

text \<open>
  Lines 66-67, evaluated after line 61 has possibly updated \<^verbatim>\<open>initialPressTime\<close>. The
  16-bit constant is converted to the unsigned 32-bit type of the difference.
\<close>

definition isShortPress :: "nat \<Rightarrow> Reading \<Rightarrow> State \<Rightarrow> bool" where
  "isShortPress TICKS_100MS r s \<longleftrightarrow>
     currentState r \<noteq> 0 \<and>
     xTaskGetTickCount r - initialPressTime s < ucast (LONG_PRESS_MIN TICKS_100MS)"

text \<open>
  \<^verbatim>\<open>getButtonState\<close>, lines 13-131. The result is the returned event together with the
  memory after the call.
\<close>

definition getButtonState :: "nat \<Rightarrow> Reading \<Rightarrow> Memory \<Rightarrow> ButtonState \<times> Memory" where
  "getButtonState TICKS_100MS r m =
     (let cur = currentState r;
          now = xTaskGetTickCount r;
          m1 = (if cur \<noteq> 0 then m\<lparr>lastButtonTime := now\<rparr> else m);
          s0 = classifier m1;
          s1 = (if cur \<noteq> 0 \<and> state s0 = 0 then s0\<lparr>initialPressTime := now\<rparr> else s0);
          short = isShortPress TICKS_100MS r s1
      in
        if cur \<noteq> state s1 then
          (let s2 = s1\<lparr>stateChangeTime := now\<rparr> in
           if cur \<noteq> 0 then
             (BUTTON_NONE,
              m1\<lparr>classifier := s2\<lparr>state := cur, wasShortPress := short,
                                       totalState := totalState s2 OR cur\<rparr>\<rparr>)
           else
             (let retVal =
                (if wasShortPress s2 then
                   (if totalState s2 = 0x01 then BUTTON_F_SHORT
                    else if totalState s2 = 0x02 then BUTTON_B_SHORT
                    else BUTTON_BOTH)
                 else BUTTON_NONE)
              in (retVal,
                  m1\<lparr>classifier := s2\<lparr>state := cur, wasShortPress := short,
                                           totalState := 0\<rparr>\<rparr>)))
        else if cur = 0 then (BUTTON_NONE, m1\<lparr>classifier := s1\<rparr>)
        else
          (let s2 = s1\<lparr>wasShortPress := short\<rparr> in
           if ucast (LONG_PRESS_MIN TICKS_100MS) \<le> now - stateChangeTime s2 then
             (if cur = 0x01 then (BUTTON_F_LONG, m1\<lparr>classifier := s2\<rparr>)
              else if cur = 0x02 then (BUTTON_B_LONG, m1\<lparr>classifier := s2\<rparr>)
              else (BUTTON_BOTH_LONG, m1\<lparr>classifier := s2\<rparr>))
           else (BUTTON_NONE, m1\<lparr>classifier := s2\<rparr>)))"

text \<open>A sequence of calls, one per reading: the events returned and the memory left.\<close>

fun polls :: "nat \<Rightarrow> Memory \<Rightarrow> Reading list \<Rightarrow> ButtonState list \<times> Memory" where
  "polls TICKS_100MS m [] = ([], m)"
| "polls TICKS_100MS m (r # rs) =
     (case getButtonState TICKS_100MS r m of
        (e, m') \<Rightarrow> (case polls TICKS_100MS m' rs of (es, m'') \<Rightarrow> (e # es, m'')))"

section \<open>The blocking helpers\<close>

text \<open>
  The helpers call \<^verbatim>\<open>getButtonState\<close> until the events allow them to return. What the
  buttons and the clock do meanwhile is given as a list, one entry for each iteration; a
  call that has used up the list without returning is still blocked, which is the result
  \<open>None\<close>. \<^verbatim>\<open>GUIDelay\<close> only lets time pass: the next reading carries the later tick.
\<close>

text \<open>Lines 137-140: \<^verbatim>\<open>while (buttons) { buttons = getButtonState(); GUIDelay(); }\<close>\<close>

fun waitForButtonPress_drain ::
  "nat \<Rightarrow> ButtonState \<Rightarrow> Memory \<Rightarrow> Reading list \<Rightarrow> (ButtonState \<times> Memory \<times> Reading list) option"
where
  "waitForButtonPress_drain TICKS_100MS buttons m [] =
     (if buttons \<noteq> BUTTON_NONE then None else Some (buttons, m, []))"
| "waitForButtonPress_drain TICKS_100MS buttons m (r # rs) =
     (if buttons \<noteq> BUTTON_NONE then
        (case getButtonState TICKS_100MS r m of
           (buttons', m') \<Rightarrow> waitForButtonPress_drain TICKS_100MS buttons' m' rs)
      else Some (buttons, m, r # rs))"

text \<open>Lines 141-144: \<^verbatim>\<open>while (!buttons) { buttons = getButtonState(); GUIDelay(); }\<close>\<close>

fun waitForButtonPress_await ::
  "nat \<Rightarrow> ButtonState \<Rightarrow> Memory \<Rightarrow> Reading list \<Rightarrow> (ButtonState \<times> Memory \<times> Reading list) option"
where
  "waitForButtonPress_await TICKS_100MS buttons m [] =
     (if buttons = BUTTON_NONE then None else Some (buttons, m, []))"
| "waitForButtonPress_await TICKS_100MS buttons m (r # rs) =
     (if buttons = BUTTON_NONE then
        (case getButtonState TICKS_100MS r m of
           (buttons', m') \<Rightarrow> waitForButtonPress_await TICKS_100MS buttons' m' rs)
      else Some (buttons, m, r # rs))"

text \<open>
  \<^verbatim>\<open>waitForButtonPress\<close>, lines 133-145. It returns nothing; the model gives the memory at
  the return and the readings not yet consumed.
\<close>

fun waitForButtonPress :: "nat \<Rightarrow> Memory \<Rightarrow> Reading list \<Rightarrow> (Memory \<times> Reading list) option" where
  "waitForButtonPress TICKS_100MS m [] = None"
| "waitForButtonPress TICKS_100MS m (r # rs) =
     (case getButtonState TICKS_100MS r m of
        (buttons, m1) \<Rightarrow>
          (case waitForButtonPress_drain TICKS_100MS buttons m1 rs of
             None \<Rightarrow> None
           | Some (buttons2, m2, rs2) \<Rightarrow>
               (case waitForButtonPress_await TICKS_100MS buttons2 m2 rs2 of
                  None \<Rightarrow> None
                | Some (buttons3, m3, rs3) \<Rightarrow> Some (m3, rs3))))"

text \<open>
  In \<^verbatim>\<open>waitForButtonPressOrTimeout\<close> every iteration reads the clock once more, after
  the delay: an iteration is the reading of its poll together with that tick. A loop
  either makes the function return (\<open>Inl\<close>) or ends normally (\<open>Inr\<close>).

  Lines 152-157, with \<open>timeout\<close> the variable after line 148:
  \<^verbatim>\<open>while (buttons) { buttons = getButtonState(); GUIDelay();
                     if (xTaskGetTickCount() > timeout) return; }\<close>
\<close>

type_synonym Iteration = "Reading \<times> TickType_t"

fun waitForButtonPressOrTimeout_drain ::
  "nat \<Rightarrow> uint32_t \<Rightarrow> ButtonState \<Rightarrow> Memory \<Rightarrow> Iteration list \<Rightarrow>
   ((Memory \<times> Iteration list) + (ButtonState \<times> Memory \<times> Iteration list)) option"
where
  "waitForButtonPressOrTimeout_drain TICKS_100MS timeout buttons m [] =
     (if buttons \<noteq> BUTTON_NONE then None else Some (Inr (buttons, m, [])))"
| "waitForButtonPressOrTimeout_drain TICKS_100MS timeout buttons m (it # its) =
     (if buttons \<noteq> BUTTON_NONE then
        (case getButtonState TICKS_100MS (fst it) m of
           (buttons', m') \<Rightarrow>
             if snd it > timeout then Some (Inl (m', its))
             else waitForButtonPressOrTimeout_drain TICKS_100MS timeout buttons' m' its)
      else Some (Inr (buttons, m, it # its)))"

text \<open>Lines 158-163, the same loop on \<^verbatim>\<open>!buttons\<close>.\<close>

fun waitForButtonPressOrTimeout_await ::
  "nat \<Rightarrow> uint32_t \<Rightarrow> ButtonState \<Rightarrow> Memory \<Rightarrow> Iteration list \<Rightarrow>
   ((Memory \<times> Iteration list) + (ButtonState \<times> Memory \<times> Iteration list)) option"
where
  "waitForButtonPressOrTimeout_await TICKS_100MS timeout buttons m [] =
     (if buttons = BUTTON_NONE then None else Some (Inr (buttons, m, [])))"
| "waitForButtonPressOrTimeout_await TICKS_100MS timeout buttons m (it # its) =
     (if buttons = BUTTON_NONE then
        (case getButtonState TICKS_100MS (fst it) m of
           (buttons', m') \<Rightarrow>
             if snd it > timeout then Some (Inl (m', its))
             else waitForButtonPressOrTimeout_await TICKS_100MS timeout buttons' m' its)
      else Some (Inr (buttons, m, it # its)))"

text \<open>
  \<^verbatim>\<open>waitForButtonPressOrTimeout\<close>, lines 147-164. \<open>entry\<close> is the tick that line 148
  reads and adds to the argument, \<open>r0\<close> the reading of the poll of line 151.
\<close>

definition waitForButtonPressOrTimeout ::
  "nat \<Rightarrow> uint32_t \<Rightarrow> TickType_t \<Rightarrow> Reading \<Rightarrow> Memory \<Rightarrow> Iteration list \<Rightarrow>
   (Memory \<times> Iteration list) option"
where
  "waitForButtonPressOrTimeout TICKS_100MS timeout0 entry r0 m its =
     (let timeout = timeout0 + entry in
      case getButtonState TICKS_100MS r0 m of
        (buttons, m1) \<Rightarrow>
          (case waitForButtonPressOrTimeout_drain TICKS_100MS timeout buttons m1 its of
             None \<Rightarrow> None
           | Some (Inl ret) \<Rightarrow> Some ret
           | Some (Inr (buttons2, m2, its2)) \<Rightarrow>
               (case waitForButtonPressOrTimeout_await TICKS_100MS timeout buttons2 m2 its2 of
                  None \<Rightarrow> None
                | Some (Inl ret) \<Rightarrow> Some ret
                | Some (Inr (buttons3, m3, its3)) \<Rightarrow> Some (m3, its3))))"

section \<open>Readings for the examples\<close>

definition released :: "TickType_t \<Rightarrow> Reading" where
  "released t = \<lparr>getButtonA = False, getButtonB = False, xTaskGetTickCount = t\<rparr>"

definition pressA :: "TickType_t \<Rightarrow> Reading" where
  "pressA t = \<lparr>getButtonA = True, getButtonB = False, xTaskGetTickCount = t\<rparr>"

definition pressB :: "TickType_t \<Rightarrow> Reading" where
  "pressB t = \<lparr>getButtonA = False, getButtonB = True, xTaskGetTickCount = t\<rparr>"

definition pressAB :: "TickType_t \<Rightarrow> Reading" where
  "pressAB t = \<lparr>getButtonA = True, getButtonB = True, xTaskGetTickCount = t\<rparr>"

section \<open>Moving the origin of the tick counter\<close>

text \<open>
  Adding \<open>d\<close> to every tick, in a reading and in the ticks that the memory holds. A
  computation that only uses differences of ticks cannot tell the shifted run from the
  original one.
\<close>

definition shift_Reading :: "TickType_t \<Rightarrow> Reading \<Rightarrow> Reading" where
  "shift_Reading d r = r\<lparr>xTaskGetTickCount := xTaskGetTickCount r + d\<rparr>"

definition shift_Memory :: "TickType_t \<Rightarrow> Memory \<Rightarrow> Memory" where
  "shift_Memory d m =
     m\<lparr>lastButtonTime := lastButtonTime m + d,
       classifier := (classifier m)\<lparr>initialPressTime := initialPressTime (classifier m) + d,
                                    stateChangeTime := stateChangeTime (classifier m) + d\<rparr>\<rparr>"

section \<open>The latch invariant\<close>

text \<open>
  What every memory reached from the initial one satisfies: \<open>totalState\<close> contains
  \<open>state\<close>, and with nothing held \<open>wasShortPress\<close> is false and \<open>totalState\<close> empty.
\<close>

definition latch_inv :: "State \<Rightarrow> bool" where
  "latch_inv s \<longleftrightarrow>
     state s AND totalState s = state s \<and>
     (state s = 0 \<longrightarrow> \<not> wasShortPress s \<and> totalState s = 0)"

section \<open>Sequences of polls\<close>

lemma polls_Cons:
  "polls T m (r # rs) =
     (fst (getButtonState T r m) # fst (polls T (snd (getButtonState T r m)) rs),
      snd (polls T (snd (getButtonState T r m)) rs))"
  by (simp split: prod.splits)

declare polls.simps(2) [simp del]

lemma polls_append:
  "polls T m (xs @ ys) =
     (fst (polls T m xs) @ fst (polls T (snd (polls T m xs)) ys),
      snd (polls T (snd (polls T m xs)) ys))"
  by (induction xs arbitrary: m) (simp_all add: polls_Cons)

lemma length_polls: "length (fst (polls T m rs)) = length rs"
  by (induction rs arbitrary: m) (simp_all add: polls_Cons)

lemmas eval_defs =
  getButtonState_def Let_def isShortPress_def currentState_def LONG_PRESS_MIN_def
  released_def pressA_def pressB_def pressAB_def Memory_initial_def State_initial_def

section \<open>The four branches of the classifier\<close>

lemma currentState_eq_0: "currentState r = 0 \<longleftrightarrow> \<not> getButtonA r \<and> \<not> getButtonB r"
  by (cases "getButtonA r"; cases "getButtonB r") (simp_all add: currentState_def)

lemma currentState_eq_1: "currentState r = 1 \<longleftrightarrow> getButtonA r \<and> \<not> getButtonB r"
  by (cases "getButtonA r"; cases "getButtonB r") (simp_all add: currentState_def)

lemma currentState_eq_2: "currentState r = 2 \<longleftrightarrow> \<not> getButtonA r \<and> getButtonB r"
  by (cases "getButtonA r"; cases "getButtonB r") (simp_all add: currentState_def)

lemma currentState_eq_3: "currentState r = 3 \<longleftrightarrow> getButtonA r \<and> getButtonB r"
  by (cases "getButtonA r"; cases "getButtonB r") (simp_all add: currentState_def)

text \<open>All buttons released after some were held (lines 82-105).\<close>

lemma getButtonState_release:
  assumes "currentState r = 0" and "state (classifier m) \<noteq> 0"
  shows "getButtonState T r m =
    ((if wasShortPress (classifier m) then
        (if totalState (classifier m) = 1 then BUTTON_F_SHORT
         else if totalState (classifier m) = 2 then BUTTON_B_SHORT
         else BUTTON_BOTH)
      else BUTTON_NONE),
     m\<lparr>classifier := (classifier m)\<lparr>stateChangeTime := xTaskGetTickCount r, state := 0,
         wasShortPress := False, totalState := 0\<rparr>\<rparr>)"
  using assms by (simp add: getButtonState_def Let_def isShortPress_def)

text \<open>Nothing held, nothing pressed (lines 109-110).\<close>

lemma getButtonState_idle:
  assumes "currentState r = 0" and "state (classifier m) = 0"
  shows "getButtonState T r m = (BUTTON_NONE, m)"
  using assms by (simp add: getButtonState_def Let_def isShortPress_def)

text \<open>A different, non-empty combination (lines 69-81).\<close>

lemma getButtonState_change:
  assumes "state (classifier m) \<noteq> currentState r" and "currentState r \<noteq> 0"
  shows "getButtonState T r m =
    (BUTTON_NONE,
     m\<lparr>lastButtonTime := xTaskGetTickCount r,
       classifier := (classifier m)\<lparr>
         initialPressTime :=
           (if state (classifier m) = 0 then xTaskGetTickCount r
            else initialPressTime (classifier m)),
         stateChangeTime := xTaskGetTickCount r,
         state := currentState r,
         wasShortPress :=
           (xTaskGetTickCount r -
              (if state (classifier m) = 0 then xTaskGetTickCount r
               else initialPressTime (classifier m))
            < ucast (LONG_PRESS_MIN T)),
         totalState := totalState (classifier m) OR currentState r\<rparr>\<rparr>)"
  using assms by (auto simp add: getButtonState_def Let_def isShortPress_def)

text \<open>The same non-empty combination as before (lines 112-129).\<close>

lemma getButtonState_hold:
  assumes "state (classifier m) = currentState r" and "currentState r \<noteq> 0"
  shows "getButtonState T r m =
    ((if ucast (LONG_PRESS_MIN T) \<le> xTaskGetTickCount r - stateChangeTime (classifier m) then
        (if getButtonA r \<and> \<not> getButtonB r then BUTTON_F_LONG
         else if getButtonB r \<and> \<not> getButtonA r then BUTTON_B_LONG
         else BUTTON_BOTH_LONG)
      else BUTTON_NONE),
     m\<lparr>lastButtonTime := xTaskGetTickCount r,
       classifier := (classifier m)\<lparr>
         wasShortPress :=
           (xTaskGetTickCount r - initialPressTime (classifier m)
            < ucast (LONG_PRESS_MIN T))\<rparr>\<rparr>)"
  using assms
  by (auto simp add: getButtonState_def Let_def isShortPress_def
        currentState_eq_1 currentState_eq_2)

section \<open>Single polls\<close>

text \<open>
  Claim C1. On a poll that reads both buttons released while the latched mask
  \<open>state\<close> is not empty, the returned event is decided by \<open>wasShortPress\<close> and
  \<open>totalState\<close>: if \<open>wasShortPress\<close> holds it is \<open>BUTTON_F_SHORT\<close> when \<open>totalState\<close>
  is exactly the bit of A, \<open>BUTTON_B_SHORT\<close> when it is exactly the bit of B and
  \<open>BUTTON_BOTH\<close> otherwise; if \<open>wasShortPress\<close> does not hold it is \<open>BUTTON_NONE\<close>.
\<close>

theorem release_edge_event:
  assumes "\<not> getButtonA r" and "\<not> getButtonB r" and "state (classifier m) \<noteq> 0"
  shows "fst (getButtonState TICKS_100MS r m) =
    (if wasShortPress (classifier m) then
       (if totalState (classifier m) = 0x01 then BUTTON_F_SHORT
        else if totalState (classifier m) = 0x02 then BUTTON_B_SHORT
        else BUTTON_BOTH)
     else BUTTON_NONE)"
proof -
  from assms(1,2) have "currentState r = 0"
    by (simp add: currentState_eq_0)
  with assms(3) show ?thesis
    by (simp add: getButtonState_release)
qed

theorem release_edge_event_witness:
  "\<not> getButtonA (released 10) \<and> \<not> getButtonB (released 10) \<and>
   state (classifier (snd (polls 100 Memory_initial [pressA 0]))) \<noteq> 0 \<and>
   wasShortPress (classifier (snd (polls 100 Memory_initial [pressA 0]))) \<and>
   fst (getButtonState 100 (released 10) (snd (polls 100 Memory_initial [pressA 0])))
     = BUTTON_F_SHORT"
  using release_edge_event [of "released 10" "snd (polls 100 Memory_initial [pressA 0])" 100]
  by (simp add: polls_Cons eval_defs)

text \<open>
  Claim C4. On a poll whose mask is not empty and differs from the latched mask (a
  press, or a change of the held combination), the call returns \<open>BUTTON_NONE\<close> and
  leaves \<open>state\<close> equal to the mask read, \<open>wasShortPress\<close> equal to \<open>isShortPress\<close>
  (computed with \<open>initialPressTime\<close> set to now when nothing was held before), and
  \<open>totalState\<close> extended by the mask read: nothing is reported at the moment of a press
  or of a combination change.
\<close>

theorem combination_change_latches:
  assumes "currentState r \<noteq> state (classifier m)" and "currentState r \<noteq> 0"
  shows "fst (getButtonState TICKS_100MS r m) = BUTTON_NONE \<and>
         state (classifier (snd (getButtonState TICKS_100MS r m))) = currentState r \<and>
         wasShortPress (classifier (snd (getButtonState TICKS_100MS r m))) =
           isShortPress TICKS_100MS r (classifier (snd (getButtonState TICKS_100MS r m))) \<and>
         initialPressTime (classifier (snd (getButtonState TICKS_100MS r m))) =
           (if state (classifier m) = 0 then xTaskGetTickCount r
            else initialPressTime (classifier m)) \<and>
         totalState (classifier (snd (getButtonState TICKS_100MS r m))) =
           totalState (classifier m) OR currentState r"
proof -
  from assms have neq: "state (classifier m) \<noteq> currentState r"
    by simp
  show ?thesis
    using assms(2) by (simp add: getButtonState_change [OF neq assms(2)] isShortPress_def)
qed

theorem combination_change_latches_witness:
  "currentState (pressA 250) \<noteq> state (classifier (snd (polls 100 Memory_initial [pressAB 0]))) \<and>
   currentState (pressA 250) \<noteq> 0 \<and>
   getButtonState 100 (pressA 250) (snd (polls 100 Memory_initial [pressAB 0])) =
     (BUTTON_NONE,
      \<lparr>lastButtonTime = 250,
       classifier = \<lparr>state = 1, wasShortPress = True, totalState = 3,
                     initialPressTime = 0, stateChangeTime = 250\<rparr>\<rparr>)"
  using combination_change_latches
          [of "pressA 250" "snd (polls 100 Memory_initial [pressAB 0])" 100]
  by (simp add: polls_Cons eval_defs)

text \<open>
  Claim C10. The kind of the event returned by a poll agrees with what the poll reads: a
  short event (\<open>BUTTON_F_SHORT\<close>, \<open>BUTTON_B_SHORT\<close>, \<open>BUTTON_BOTH\<close>) only when both
  buttons read released, a long event (\<open>BUTTON_F_LONG\<close>, \<open>BUTTON_B_LONG\<close>,
  \<open>BUTTON_BOTH_LONG\<close>) only when a button reads pressed, and \<open>BUTTON_NONE\<close> in every
  other poll. This holds in every memory, reachable or not.
\<close>

theorem event_kind_matches_reading:
  "(fst (getButtonState TICKS_100MS r m) \<in> {BUTTON_F_SHORT, BUTTON_B_SHORT, BUTTON_BOTH}
      \<longrightarrow> \<not> getButtonA r \<and> \<not> getButtonB r) \<and>
   (fst (getButtonState TICKS_100MS r m) \<in> {BUTTON_F_LONG, BUTTON_B_LONG, BUTTON_BOTH_LONG}
      \<longrightarrow> getButtonA r \<or> getButtonB r) \<and>
   (fst (getButtonState TICKS_100MS r m) \<notin> {BUTTON_F_SHORT, BUTTON_B_SHORT, BUTTON_BOTH}
                                              \<union> {BUTTON_F_LONG, BUTTON_B_LONG, BUTTON_BOTH_LONG}
      \<longrightarrow> fst (getButtonState TICKS_100MS r m) = BUTTON_NONE)"
proof (cases "currentState r = 0")
  case True
  then show ?thesis
    by (cases "state (classifier m) = 0")
       (simp_all add: getButtonState_release getButtonState_idle currentState_eq_0)
next
  case False
  then show ?thesis
    by (cases "state (classifier m) = currentState r")
       (simp_all add: getButtonState_hold getButtonState_change currentState_eq_0)
qed

theorem event_kind_matches_reading_witness:
  "fst (getButtonState 100 (released 10) (snd (polls 100 Memory_initial [pressB 0])))
     = BUTTON_B_SHORT \<and>
   \<not> getButtonA (released 10) \<and> \<not> getButtonB (released 10) \<and>
   fst (getButtonState 100 (pressB 400) (snd (polls 100 Memory_initial [pressB 0])))
     = BUTTON_B_LONG \<and>
   (getButtonA (pressB 400) \<or> getButtonB (pressB 400)) \<and>
   fst (getButtonState 100 (pressB 399) (snd (polls 100 Memory_initial [pressB 0])))
     = BUTTON_NONE"
  using event_kind_matches_reading [of 100 "released 10" "snd (polls 100 Memory_initial [pressB 0])"]
    event_kind_matches_reading [of 100 "pressB 400" "snd (polls 100 Memory_initial [pressB 0])"]
    event_kind_matches_reading [of 100 "pressB 399" "snd (polls 100 Memory_initial [pressB 0])"]
  by (simp add: polls_Cons eval_defs)

section \<open>Holding a combination\<close>

lemma polls_hold:
  assumes "\<forall>r\<in>set rs. currentState r = state (classifier m)" and "state (classifier m) \<noteq> 0"
  shows "fst (polls T m rs) =
           map (\<lambda>r. if ucast (LONG_PRESS_MIN T) \<le> xTaskGetTickCount r - stateChangeTime (classifier m)
                     then (if getButtonA r \<and> \<not> getButtonB r then BUTTON_F_LONG
                           else if getButtonB r \<and> \<not> getButtonA r then BUTTON_B_LONG
                           else BUTTON_BOTH_LONG)
                     else BUTTON_NONE) rs
         \<and> state (classifier (snd (polls T m rs))) = state (classifier m)
         \<and> stateChangeTime (classifier (snd (polls T m rs))) = stateChangeTime (classifier m)
         \<and> initialPressTime (classifier (snd (polls T m rs))) = initialPressTime (classifier m)
         \<and> totalState (classifier (snd (polls T m rs))) = totalState (classifier m)
         \<and> wasShortPress (classifier (snd (polls T m rs))) =
             (if rs = [] then wasShortPress (classifier m)
              else xTaskGetTickCount (last rs) - initialPressTime (classifier m)
                     < ucast (LONG_PRESS_MIN T))"
  using assms
proof (induction rs arbitrary: m)
  case Nil
  then show ?case by simp
next
  case (Cons r rs)
  from Cons.prems have eq: "state (classifier m) = currentState r" and ne: "currentState r \<noteq> 0"
    by auto
  note step = getButtonState_hold [OF eq ne, of T]
  let ?m' = "snd (getButtonState T r m)"
  have st: "state (classifier ?m') = state (classifier m)"
    and sc: "stateChangeTime (classifier ?m') = stateChangeTime (classifier m)"
    and ip: "initialPressTime (classifier ?m') = initialPressTime (classifier m)"
    and ts: "totalState (classifier ?m') = totalState (classifier m)"
    and ws: "wasShortPress (classifier ?m') = (xTaskGetTickCount r - initialPressTime (classifier m)
                     < ucast (LONG_PRESS_MIN T))"
    by (simp_all add: step)
  from Cons.prems st have "\<forall>r\<in>set rs. currentState r = state (classifier ?m')"
    and "state (classifier ?m') \<noteq> 0" by auto
  note IH = Cons.IH [OF this]
  show ?case
    using IH by (simp add: polls_Cons step st sc ip ts ws)
qed

text \<open>
  Claim C2. Polls that read the latched, non-empty mask again: each of them returns the
  long event of the mask read (\<open>BUTTON_F_LONG\<close> for A alone, \<open>BUTTON_B_LONG\<close> for B
  alone, \<open>BUTTON_BOTH_LONG\<close> for both) if the tick of the poll minus \<open>stateChangeTime\<close>
  is at least \<open>LONG_PRESS_MIN\<close>, and \<open>BUTTON_NONE\<close> if it is below. The statement is
  about a whole run of such polls, so the long event is returned again on every later
  poll of the unchanged combination that is past the threshold: \<open>state\<close> and
  \<open>stateChangeTime\<close> stay as they were at the first of them.
\<close>

theorem unchanged_hold_long_event:
  assumes "\<forall>r\<in>set rs. currentState r = state (classifier m)" and "state (classifier m) \<noteq> 0"
  shows "fst (polls TICKS_100MS m rs) =
           map (\<lambda>r. if ucast (LONG_PRESS_MIN TICKS_100MS)
                          \<le> xTaskGetTickCount r - stateChangeTime (classifier m)
                     then (if getButtonA r \<and> \<not> getButtonB r then BUTTON_F_LONG
                           else if getButtonB r \<and> \<not> getButtonA r then BUTTON_B_LONG
                           else BUTTON_BOTH_LONG)
                     else BUTTON_NONE) rs"
  using polls_hold [OF assms] by simp

theorem unchanged_hold_long_event_witness:
  "state (classifier (snd (polls 100 Memory_initial [pressAB 0]))) = 3 \<and>
   map currentState [pressAB 399, pressAB 400, pressAB 401, pressAB 1000] = [3, 3, 3, 3] \<and>
   map (\<lambda>r. xTaskGetTickCount r
              - stateChangeTime (classifier (snd (polls 100 Memory_initial [pressAB 0]))))
     [pressAB 399, pressAB 400, pressAB 401, pressAB 1000] = [399, 400, 401, 1000] \<and>
   fst (polls 100 (snd (polls 100 Memory_initial [pressAB 0]))
          [pressAB 399, pressAB 400, pressAB 401, pressAB 1000]) =
     [BUTTON_NONE, BUTTON_BOTH_LONG, BUTTON_BOTH_LONG, BUTTON_BOTH_LONG]"
  using unchanged_hold_long_event
     [of "[pressAB 399, pressAB 400, pressAB 401, pressAB 1000]"
         "snd (polls 100 Memory_initial [pressAB 0])" 100]
  by (simp add: polls_Cons eval_defs)

lemma sorted_threshold_index:
  fixes f :: "'a \<Rightarrow> 'b::linorder" and L :: 'b
  assumes "sorted (map f xs)"
  defines "k \<equiv> length (takeWhile (\<lambda>x. f x < L) xs)"
  shows "k \<le> length xs" and "\<forall>i<length xs. k \<le> i \<longleftrightarrow> L \<le> f (xs ! i)"
proof -
  show le: "k \<le> length xs"
    by (simp add: k_def length_takeWhile_le)
  show "\<forall>i<length xs. k \<le> i \<longleftrightarrow> L \<le> f (xs ! i)"
  proof (intro allI impI)
    fix i assume i: "i < length xs"
    show "k \<le> i \<longleftrightarrow> L \<le> f (xs ! i)"
    proof
      assume ki: "k \<le> i"
      with i have "k < length xs" by simp
      then have "\<not> f (xs ! k) < L"
        unfolding k_def by (rule nth_length_takeWhile)
      moreover from assms(1) ki i have "f (xs ! k) \<le> f (xs ! i)"
        by (simp add: sorted_iff_nth_mono)
      ultimately show "L \<le> f (xs ! i)" by simp
    next
      assume L: "L \<le> f (xs ! i)"
      show "k \<le> i"
      proof (rule ccontr)
        assume "\<not> k \<le> i"
        then have "i < length (takeWhile (\<lambda>x. f x < L) xs)" by (simp add: k_def)
        then have lt: "i < length (takeWhile (\<lambda>x. f x < L) xs)" .
        from lt have "takeWhile (\<lambda>x. f x < L) xs ! i \<in> set (takeWhile (\<lambda>x. f x < L) xs)"
          by (rule nth_mem)
        then have "f (takeWhile (\<lambda>x. f x < L) xs ! i) < L"
          by (auto dest: set_takeWhileD)
        with lt have "f (xs ! i) < L"
          by (simp add: takeWhile_nth)
        with L show False by simp
      qed
    qed
  qed
qed

lemma map_threshold_replicate:
  assumes "k \<le> length xs" and "\<forall>i<length xs. k \<le> i \<longleftrightarrow> P (xs ! i)"
  shows "map (\<lambda>x. if P x then a else b) xs = replicate k b @ replicate (length xs - k) a"
  using assms by (intro nth_equalityI) (auto simp add: nth_append)

text \<open>
  Claim C3. Button A alone is pressed from idle (reading \<open>p\<close>), is read pressed alone
  at the following polls \<open>hs\<close>, and both buttons are read released at the poll \<open>q\<close>.
  The held duration at a poll is its tick minus the tick of \<open>p\<close>, in the arithmetic of
  the counter; it does not decrease along \<open>hs\<close> and has reached \<open>LONG_PRESS_MIN\<close> at the
  last poll before the release. Then there is a first poll \<open>k\<close> of \<open>hs\<close> at which the
  duration has reached the threshold, the polls before it return \<open>BUTTON_NONE\<close>, that
  poll and all later ones return \<open>BUTTON_F_LONG\<close>, and the release poll returns
  \<open>BUTTON_NONE\<close>: no \<open>BUTTON_F_SHORT\<close> is produced.
\<close>

theorem long_hold_of_A:
  assumes held0: "state (classifier m) = 0"
    and press: "getButtonA p \<and> \<not> getButtonB p"
    and hold: "\<forall>h\<in>set hs. getButtonA h \<and> \<not> getButtonB h"
    and release: "\<not> getButtonA q \<and> \<not> getButtonB q"
    and mono: "sorted (map (\<lambda>h. xTaskGetTickCount h - xTaskGetTickCount p) hs)"
    and nonempty: "hs \<noteq> []"
    and long: "ucast (LONG_PRESS_MIN TICKS_100MS)
                 \<le> xTaskGetTickCount (last hs) - xTaskGetTickCount p"
  shows "\<exists>k<length hs.
           fst (polls TICKS_100MS m (p # hs @ [q])) =
             BUTTON_NONE # replicate k BUTTON_NONE @
             replicate (length hs - k) BUTTON_F_LONG @ [BUTTON_NONE] \<and>
           (\<forall>i<length hs. k \<le> i \<longleftrightarrow>
              ucast (LONG_PRESS_MIN TICKS_100MS)
                \<le> xTaskGetTickCount (hs ! i) - xTaskGetTickCount p)"
proof -
  let ?T = TICKS_100MS
  let ?L = "ucast (LONG_PRESS_MIN ?T) :: 32 word"
  let ?d = "\<lambda>h. xTaskGetTickCount h - xTaskGetTickCount p"
  define m1 where "m1 = snd (getButtonState ?T p m)"
  define m2 where "m2 = snd (polls ?T m1 hs)"
  from press have cp: "currentState p = 1" by (simp add: currentState_eq_1)
  with held0 have ne: "state (classifier m) \<noteq> currentState p" and nz: "currentState p \<noteq> 0"
    by simp_all
  note step1 = getButtonState_change [OF ne nz, of ?T]
  have e1: "fst (getButtonState ?T p m) = BUTTON_NONE"
    and s1: "state (classifier m1) = 1"
    and c1: "stateChangeTime (classifier m1) = xTaskGetTickCount p"
    and i1: "initialPressTime (classifier m1) = xTaskGetTickCount p"
    by (simp_all add: m1_def step1 cp held0)
  from hold have ch: "\<forall>h\<in>set hs. currentState h = state (classifier m1)"
    by (simp add: s1 currentState_eq_1)
  have nz1: "state (classifier m1) \<noteq> 0" by (simp add: s1)
  note H = polls_hold [OF ch nz1, of ?T]
  from hold have ev: "fst (polls ?T m1 hs) =
      map (\<lambda>h. if ?L \<le> ?d h then BUTTON_F_LONG else BUTTON_NONE) hs"
    using H by (simp add: c1 cong: map_cong)
  have s2: "state (classifier m2) \<noteq> 0" and w2: "\<not> wasShortPress (classifier m2)"
    using H nonempty long by (simp_all add: m2_def s1 i1 not_less)
  from release have cq: "currentState q = 0" by (simp add: currentState_eq_0)
  have e3: "fst (getButtonState ?T q m2) = BUTTON_NONE"
    by (simp add: getButtonState_release [OF cq s2] w2)
  define k where "k = length (takeWhile (\<lambda>h. ?d h < ?L) hs)"
  have kle: "k \<le> length hs" and kiff: "\<forall>i<length hs. k \<le> i \<longleftrightarrow> ?L \<le> ?d (hs ! i)"
    unfolding k_def using sorted_threshold_index [OF mono] by blast+
  from nonempty long kiff have "k \<le> length hs - 1"
    by (simp add: last_conv_nth)
  with nonempty have klt: "k < length hs"
    by (cases hs) simp_all
  have "fst (polls ?T m (p # hs @ [q])) =
      BUTTON_NONE # replicate k BUTTON_NONE @ replicate (length hs - k) BUTTON_F_LONG @ [BUTTON_NONE]"
    using map_threshold_replicate [OF kle kiff, of BUTTON_F_LONG BUTTON_NONE]
    by (simp add: polls_Cons polls_append e1 ev e3 m1_def [symmetric] m2_def [symmetric])
  with klt kiff show ?thesis by blast
qed

theorem long_hold_of_A_witness:
  "state (classifier Memory_initial) = 0 \<and>
   (getButtonA (pressA 1000) \<and> \<not> getButtonB (pressA 1000)) \<and>
   map currentState [pressA 1200, pressA 1399, pressA 1400, pressA 1600] = [1, 1, 1, 1] \<and>
   (\<not> getButtonA (released 1700) \<and> \<not> getButtonB (released 1700)) \<and>
   sorted (map (\<lambda>h. xTaskGetTickCount h - xTaskGetTickCount (pressA 1000))
             [pressA 1200, pressA 1399, pressA 1400, pressA 1600]) \<and>
   ucast (LONG_PRESS_MIN 100)
     \<le> xTaskGetTickCount (last [pressA 1200, pressA 1399, pressA 1400, pressA 1600])
        - xTaskGetTickCount (pressA 1000) \<and>
   fst (polls 100 Memory_initial
          (pressA 1000 # [pressA 1200, pressA 1399, pressA 1400, pressA 1600] @ [released 1700])) =
     [BUTTON_NONE, BUTTON_NONE, BUTTON_NONE, BUTTON_F_LONG, BUTTON_F_LONG, BUTTON_NONE]"
  using long_hold_of_A [of Memory_initial "pressA 1000"
          "[pressA 1200, pressA 1399, pressA 1400, pressA 1600]" "released 1700" 100]
  by (simp add: polls_Cons eval_defs)

section \<open>Reachable memories\<close>

lemma latch_inv_initial: "latch_inv (classifier Memory_initial)"
  by (simp add: latch_inv_def Memory_initial_def State_initial_def)

lemma latch_inv_getButtonState:
  assumes "latch_inv (classifier m)"
  shows "latch_inv (classifier (snd (getButtonState T r m)))"
proof (cases "currentState r = 0")
  case True
  with assms show ?thesis
    by (cases "state (classifier m) = 0")
       (simp_all add: getButtonState_release getButtonState_idle latch_inv_def)
next
  case False
  have absorb: "currentState r AND (totalState (classifier m) OR currentState r) = currentState r"
    by (simp add: bit_eq_iff bit_and_iff bit_or_iff)
  from False assms show ?thesis
    by (cases "state (classifier m) = currentState r")
       (simp_all add: getButtonState_hold getButtonState_change latch_inv_def absorb)
qed

lemma latch_inv_polls:
  assumes "latch_inv (classifier m)"
  shows "latch_inv (classifier (snd (polls T m rs)))"
  using assms
  by (induction rs arbitrary: m) (simp_all add: polls_Cons latch_inv_getButtonState)

text \<open>
  Claim C9. In every memory reached from the zeroed initial one by any sequence of polls,
  if \<open>state\<close> is empty then \<open>wasShortPress\<close> is false and \<open>totalState\<close> is empty.
\<close>

theorem idle_state_has_clean_latch:
  "state (classifier (snd (polls TICKS_100MS Memory_initial rs))) = 0 \<longrightarrow>
     \<not> wasShortPress (classifier (snd (polls TICKS_100MS Memory_initial rs))) \<and>
     totalState (classifier (snd (polls TICKS_100MS Memory_initial rs))) = 0"
  using latch_inv_polls [OF latch_inv_initial, of TICKS_100MS rs]
  by (simp add: latch_inv_def)

theorem idle_state_has_clean_latch_witness:
  "state (classifier (snd (polls 100 Memory_initial
      [pressAB 0, pressAB 500, pressB 600, released 700]))) = 0 \<and>
   \<not> wasShortPress (classifier (snd (polls 100 Memory_initial
      [pressAB 0, pressAB 500, pressB 600, released 700]))) \<and>
   totalState (classifier (snd (polls 100 Memory_initial
      [pressAB 0, pressAB 500, pressB 600, released 700]))) = 0"
  using idle_state_has_clean_latch [of 100 "[pressAB 0, pressAB 500, pressB 600, released 700]"]
  by (simp add: polls_Cons eval_defs)

text \<open>
  Claim C5. In every memory reached from the zeroed initial one, \<open>totalState\<close> contains
  every bit of \<open>state\<close>; and a further poll takes \<open>totalState\<close> from non-empty to empty
  exactly when it takes \<open>state\<close> from non-empty to empty.
\<close>

theorem totalState_covers_state:
  "state (classifier (snd (polls TICKS_100MS Memory_initial rs)))
     AND totalState (classifier (snd (polls TICKS_100MS Memory_initial rs)))
     = state (classifier (snd (polls TICKS_100MS Memory_initial rs))) \<and>
   ((totalState (classifier (snd (polls TICKS_100MS Memory_initial rs))) \<noteq> 0 \<and>
     totalState (classifier (snd (getButtonState TICKS_100MS r
        (snd (polls TICKS_100MS Memory_initial rs))))) = 0)
    \<longleftrightarrow>
    (state (classifier (snd (polls TICKS_100MS Memory_initial rs))) \<noteq> 0 \<and>
     state (classifier (snd (getButtonState TICKS_100MS r
        (snd (polls TICKS_100MS Memory_initial rs))))) = 0))"
proof -
  define m where "m = snd (polls TICKS_100MS Memory_initial rs)"
  define m' where "m' = snd (getButtonState TICKS_100MS r m)"
  have inv: "latch_inv (classifier m)"
    unfolding m_def by (rule latch_inv_polls [OF latch_inv_initial])
  then have inv': "latch_inv (classifier m')"
    unfolding m'_def by (rule latch_inv_getButtonState)
  have zero: "totalState s = 0 \<longleftrightarrow> state s = 0" if "latch_inv s" for s
    using that by (auto simp add: latch_inv_def)
  from inv have "state (classifier m) AND totalState (classifier m) = state (classifier m)"
    by (simp add: latch_inv_def)
  moreover have "(totalState (classifier m) \<noteq> 0 \<and> totalState (classifier m') = 0)
      \<longleftrightarrow> (state (classifier m) \<noteq> 0 \<and> state (classifier m') = 0)"
    by (simp add: zero [OF inv] zero [OF inv'])
  ultimately show ?thesis
    by (simp add: m_def m'_def)
qed

theorem totalState_covers_state_witness:
  "totalState (classifier (snd (polls 100 Memory_initial [pressAB 0, pressA 100]))) = 3 \<and>
   state (classifier (snd (polls 100 Memory_initial [pressAB 0, pressA 100]))) = 1 \<and>
   totalState (classifier (snd (getButtonState 100 (released 200)
      (snd (polls 100 Memory_initial [pressAB 0, pressA 100]))))) = 0 \<and>
   state (classifier (snd (getButtonState 100 (released 200)
      (snd (polls 100 Memory_initial [pressAB 0, pressA 100]))))) = 0"
  using totalState_covers_state [of 100 "[pressAB 0, pressA 100]" "released 200"]
  by (simp add: polls_Cons eval_defs)

section \<open>Waiting for a press\<close>

lemma drain_NONE:
  "waitForButtonPress_drain T BUTTON_NONE m rs = Some (BUTTON_NONE, m, rs)"
  by (cases rs) simp_all

lemma await_event:
  "b \<noteq> BUTTON_NONE \<Longrightarrow> waitForButtonPress_await T b m rs = Some (b, m, rs)"
  by (cases rs) simp_all

lemma drain_SomeD:
  assumes "waitForButtonPress_drain T b m rs = Some (b', m', rest)"
  shows "b' = BUTTON_NONE \<and>
         (\<exists>cs ns. rs = cs @ rest \<and> m' = snd (polls T m cs) \<and>
                  b # fst (polls T m cs) = ns @ [BUTTON_NONE] \<and>
                  (\<forall>x\<in>set ns. x \<noteq> BUTTON_NONE))"
  using assms
proof (induction rs arbitrary: b m)
  case Nil
  then show ?case by (simp split: if_splits)
next
  case (Cons r rs)
  show ?case
  proof (cases "b = BUTTON_NONE")
    case True
    with Cons.prems have "b' = BUTTON_NONE" "m' = m" "rest = r # rs"
      by simp_all
    with True show ?thesis
      by (intro conjI exI [of _ "[]"]) simp_all
  next
    case False
    with Cons.prems have
      "waitForButtonPress_drain T (fst (getButtonState T r m)) (snd (getButtonState T r m)) rs
         = Some (b', m', rest)"
      by (simp add: case_prod_beta)
    from Cons.IH [OF this] obtain cs ns where b': "b' = BUTTON_NONE"
      and rs: "rs = cs @ rest"
      and m': "m' = snd (polls T (snd (getButtonState T r m)) cs)"
      and ev: "fst (getButtonState T r m) # fst (polls T (snd (getButtonState T r m)) cs)
                 = ns @ [BUTTON_NONE]"
      and ns: "\<forall>x\<in>set ns. x \<noteq> BUTTON_NONE"
      by blast
    have "r # rs = (r # cs) @ rest" using rs by simp
    moreover have "m' = snd (polls T m (r # cs))" using m' by (simp add: polls_Cons)
    moreover have "b # fst (polls T m (r # cs)) = (b # ns) @ [BUTTON_NONE]"
      using ev by (simp add: polls_Cons)
    moreover have "\<forall>x\<in>set (b # ns). x \<noteq> BUTTON_NONE" using ns False by simp
    ultimately show ?thesis using b' by blast
  qed
qed

lemma drain_SomeI:
  assumes "b # fst (polls T m cs) = ns @ [BUTTON_NONE]" and "\<forall>x\<in>set ns. x \<noteq> BUTTON_NONE"
  shows "waitForButtonPress_drain T b m (cs @ rest) = Some (BUTTON_NONE, snd (polls T m cs), rest)"
  using assms
proof (induction cs arbitrary: b m ns)
  case Nil
  then show ?case by (simp add: drain_NONE)
next
  case (Cons c cs)
  from Cons.prems(1) obtain ns' where ns: "ns = b # ns'"
    by (cases ns) (simp_all add: polls_Cons)
  with Cons.prems have b: "b \<noteq> BUTTON_NONE"
    and ev: "fst (getButtonState T c m) # fst (polls T (snd (getButtonState T c m)) cs)
               = ns' @ [BUTTON_NONE]"
    and ns': "\<forall>x\<in>set ns'. x \<noteq> BUTTON_NONE"
    by (simp_all add: polls_Cons)
  from Cons.IH [OF ev ns'] b show ?case
    by (simp add: polls_Cons case_prod_beta)
qed

lemma await_SomeD:
  assumes "waitForButtonPress_await T b m rs = Some (b', m', rest)"
  shows "b' \<noteq> BUTTON_NONE \<and>
         (\<exists>cs ns. rs = cs @ rest \<and> m' = snd (polls T m cs) \<and>
                  b # fst (polls T m cs) = ns @ [b'] \<and>
                  (\<forall>x\<in>set ns. x = BUTTON_NONE))"
  using assms
proof (induction rs arbitrary: b m)
  case Nil
  then show ?case by (simp split: if_splits)
next
  case (Cons r rs)
  show ?case
  proof (cases "b = BUTTON_NONE")
    case False
    with Cons.prems have "b' = b" "m' = m" "rest = r # rs"
      by simp_all
    with False show ?thesis
      by (intro conjI exI [of _ "[]"]) simp_all
  next
    case True
    with Cons.prems have
      "waitForButtonPress_await T (fst (getButtonState T r m)) (snd (getButtonState T r m)) rs
         = Some (b', m', rest)"
      by (simp add: case_prod_beta)
    from Cons.IH [OF this] obtain cs ns where b': "b' \<noteq> BUTTON_NONE"
      and rs: "rs = cs @ rest"
      and m': "m' = snd (polls T (snd (getButtonState T r m)) cs)"
      and ev: "fst (getButtonState T r m) # fst (polls T (snd (getButtonState T r m)) cs)
                 = ns @ [b']"
      and ns: "\<forall>x\<in>set ns. x = BUTTON_NONE"
      by blast
    have "r # rs = (r # cs) @ rest" using rs by simp
    moreover have "m' = snd (polls T m (r # cs))" using m' by (simp add: polls_Cons)
    moreover have "b # fst (polls T m (r # cs)) = (b # ns) @ [b']"
      using ev by (simp add: polls_Cons)
    moreover have "\<forall>x\<in>set (b # ns). x = BUTTON_NONE" using ns True by simp
    ultimately show ?thesis using b' by blast
  qed
qed

lemma await_SomeI:
  assumes "b # fst (polls T m cs) = ns @ [e]" and "\<forall>x\<in>set ns. x = BUTTON_NONE"
    and "e \<noteq> BUTTON_NONE"
  shows "waitForButtonPress_await T b m (cs @ rest) = Some (e, snd (polls T m cs), rest)"
  using assms
proof (induction cs arbitrary: b m ns)
  case Nil
  then show ?case by (simp add: await_event)
next
  case (Cons c cs)
  from Cons.prems(1) obtain ns' where ns: "ns = b # ns'"
    by (cases ns) (simp_all add: polls_Cons)
  with Cons.prems have b: "b = BUTTON_NONE"
    and ev: "fst (getButtonState T c m) # fst (polls T (snd (getButtonState T c m)) cs)
               = ns' @ [e]"
    and ns': "\<forall>x\<in>set ns'. x = BUTTON_NONE"
    by (simp_all add: polls_Cons)
  from Cons.IH [OF ev ns' Cons.prems(3)] b show ?case
    by (simp add: polls_Cons case_prod_beta)
qed

lemma polls_eq_appendD:
  assumes "fst (polls T m cs) = xs @ ys"
  shows "\<exists>cs1 cs2. cs = cs1 @ cs2 \<and> fst (polls T m cs1) = xs \<and>
           fst (polls T (snd (polls T m cs1)) cs2) = ys \<and>
           snd (polls T (snd (polls T m cs1)) cs2) = snd (polls T m cs)"
proof -
  let ?n = "length xs"
  have ap: "polls T m cs =
      (fst (polls T m (take ?n cs)) @ fst (polls T (snd (polls T m (take ?n cs))) (drop ?n cs)),
       snd (polls T (snd (polls T m (take ?n cs))) (drop ?n cs)))"
    using polls_append [of T m "take ?n cs" "drop ?n cs"] by simp
  have "length (fst (polls T m cs)) = length cs"
    by (rule length_polls)
  with assms have "?n \<le> length cs"
    by simp
  then have len: "length (fst (polls T m (take ?n cs))) = ?n"
    by (simp add: length_polls)
  from assms ap have "fst (polls T m (take ?n cs)) @
      fst (polls T (snd (polls T m (take ?n cs))) (drop ?n cs)) = xs @ ys"
    by (metis fst_conv)
  with len have "fst (polls T m (take ?n cs)) = xs"
    and "fst (polls T (snd (polls T m (take ?n cs))) (drop ?n cs)) = ys"
    by (simp_all add: append_eq_append_conv)
  moreover from ap
  have "snd (polls T (snd (polls T m (take ?n cs))) (drop ?n cs)) = snd (polls T m cs)"
    by (metis snd_conv)
  ultimately show ?thesis
    by (intro exI [of _ "take ?n cs"] exI [of _ "drop ?n cs"]) simp
qed

text \<open>
  Claim C6. \<^verbatim>\<open>waitForButtonPress\<close> is entered while the classifier reports an event (the
  first poll returns something other than \<open>BUTTON_NONE\<close>). Then the call returns, with
  memory \<open>m'\<close> and the readings \<open>rest\<close> left over, exactly when the readings it has
  consumed produce: a non-empty run of events, then a non-empty run of \<open>BUTTON_NONE\<close>,
  then one event, after which it returns at once. So it does not return for the event
  it found at entry, and it returns on the first event after a \<open>BUTTON_NONE\<close>.
\<close>

theorem waitForButtonPress_event_at_entry:
  assumes "fst (getButtonState TICKS_100MS r m) \<noteq> BUTTON_NONE"
  shows "waitForButtonPress TICKS_100MS m (r # rs) = Some (m', rest) \<longleftrightarrow>
    (\<exists>cs es1 es2 e.
        r # rs = cs @ rest \<and> polls TICKS_100MS m cs = (es1 @ es2 @ [e], m') \<and>
        es1 \<noteq> [] \<and> (\<forall>x\<in>set es1. x \<noteq> BUTTON_NONE) \<and>
        es2 \<noteq> [] \<and> (\<forall>x\<in>set es2. x = BUTTON_NONE) \<and>
        e \<noteq> BUTTON_NONE)"
  (is "?lhs \<longleftrightarrow> ?rhs")
proof
  let ?T = TICKS_100MS
  let ?b = "fst (getButtonState ?T r m)"
  let ?m1 = "snd (getButtonState ?T r m)"
  assume ?lhs
  then obtain b2 m2 rs2 b3 where
    d: "waitForButtonPress_drain ?T ?b ?m1 rs = Some (b2, m2, rs2)"
    and a: "waitForButtonPress_await ?T b2 m2 rs2 = Some (b3, m', rest)"
    by (auto simp add: case_prod_beta split: option.splits)
  from drain_SomeD [OF d] obtain cs1 ns1 where b2: "b2 = BUTTON_NONE"
    and rs: "rs = cs1 @ rs2" and m2: "m2 = snd (polls ?T ?m1 cs1)"
    and ev1: "?b # fst (polls ?T ?m1 cs1) = ns1 @ [BUTTON_NONE]"
    and ns1: "\<forall>x\<in>set ns1. x \<noteq> BUTTON_NONE"
    by blast
  from await_SomeD [OF a] obtain cs2 ns2 where b3: "b3 \<noteq> BUTTON_NONE"
    and rs2: "rs2 = cs2 @ rest" and m': "m' = snd (polls ?T m2 cs2)"
    and ev2: "b2 # fst (polls ?T m2 cs2) = ns2 @ [b3]"
    and ns2: "\<forall>x\<in>set ns2. x = BUTTON_NONE"
    by blast
  from ev1 assms have ne1: "ns1 \<noteq> []"
    by (cases ns1) simp_all
  from ev2 b2 b3 have ne2: "ns2 \<noteq> []"
    by (cases ns2) simp_all
  from ev2 b2 ne2 have tl2: "fst (polls ?T m2 cs2) = tl ns2 @ [b3]" and hd2: "hd ns2 = BUTTON_NONE"
    by (cases ns2; simp)+
  have "r # rs = (r # cs1 @ cs2) @ rest"
    using rs rs2 by simp
  moreover have "fst (polls ?T m (r # cs1 @ cs2)) = ns1 @ ns2 @ [b3]"
  proof -
    have "fst (polls ?T m (r # cs1 @ cs2)) = (?b # fst (polls ?T ?m1 cs1)) @ fst (polls ?T m2 cs2)"
      by (simp add: polls_Cons polls_append m2)
    also have "\<dots> = ns1 @ (BUTTON_NONE # tl ns2) @ [b3]"
      by (simp add: ev1 tl2)
    also have "BUTTON_NONE # tl ns2 = ns2"
      using ne2 hd2 by (cases ns2) simp_all
    finally show ?thesis .
  qed
  moreover have "snd (polls ?T m (r # cs1 @ cs2)) = m'"
    by (simp add: polls_Cons polls_append m2 m')
  ultimately have "r # rs = (r # cs1 @ cs2) @ rest \<and>
      polls ?T m (r # cs1 @ cs2) = (ns1 @ ns2 @ [b3], m')"
    by (simp add: prod_eq_iff)
  with ne1 ns1 ne2 ns2 b3 show ?rhs
    by blast
next
  let ?T = TICKS_100MS
  let ?b = "fst (getButtonState ?T r m)"
  let ?m1 = "snd (getButtonState ?T r m)"
  assume ?rhs
  then obtain cs es1 es2 e where split: "r # rs = cs @ rest"
    and run: "polls ?T m cs = (es1 @ es2 @ [e], m')"
    and ne1: "es1 \<noteq> []" and es1: "\<forall>x\<in>set es1. x \<noteq> BUTTON_NONE"
    and ne2: "es2 \<noteq> []" and es2: "\<forall>x\<in>set es2. x = BUTTON_NONE"
    and e: "e \<noteq> BUTTON_NONE"
    by blast
  from run have "cs \<noteq> []"
    by auto
  with split obtain cs' where cs: "cs = r # cs'" and rs: "rs = cs' @ rest"
    by (cases cs) simp_all
  from ne2 es2 obtain es2' where es2': "es2 = BUTTON_NONE # es2'"
    by (cases es2) simp_all
  from run cs ne1 have hd1: "?b = hd es1"
    and tl1: "fst (polls ?T ?m1 cs') = (tl es1 @ [BUTTON_NONE]) @ (es2' @ [e])"
    and fin: "snd (polls ?T ?m1 cs') = m'"
    by (cases es1; simp add: polls_Cons es2')+
  from polls_eq_appendD [OF tl1] obtain cs1 cs2 where cs': "cs' = cs1 @ cs2"
    and ev1: "fst (polls ?T ?m1 cs1) = tl es1 @ [BUTTON_NONE]"
    and ev2: "fst (polls ?T (snd (polls ?T ?m1 cs1)) cs2) = es2' @ [e]"
    and m': "snd (polls ?T (snd (polls ?T ?m1 cs1)) cs2) = m'"
    using fin by auto
  have "?b # fst (polls ?T ?m1 cs1) = es1 @ [BUTTON_NONE]"
    using ne1 by (simp add: ev1 hd1)
  from drain_SomeI [OF this es1, of "cs2 @ rest"]
  have d: "waitForButtonPress_drain ?T ?b ?m1 rs =
      Some (BUTTON_NONE, snd (polls ?T ?m1 cs1), cs2 @ rest)"
    by (simp add: rs cs')
  have "BUTTON_NONE # fst (polls ?T (snd (polls ?T ?m1 cs1)) cs2) = es2 @ [e]"
    by (simp add: ev2 es2')
  from await_SomeI [OF this es2 e, of rest]
  have a: "waitForButtonPress_await ?T BUTTON_NONE (snd (polls ?T ?m1 cs1)) (cs2 @ rest) =
      Some (e, m', rest)"
    by (simp add: m')
  show ?lhs
    by (simp add: case_prod_beta d a)
qed

theorem waitForButtonPress_event_at_entry_witness:
  "fst (getButtonState 100 (pressA 400) (snd (polls 100 Memory_initial [pressA 0])))
     \<noteq> BUTTON_NONE \<and>
   fst (polls 100 (snd (polls 100 Memory_initial [pressA 0]))
     [pressA 400, pressA 410, released 420, released 430, pressB 440, released 450]) =
     [BUTTON_F_LONG, BUTTON_F_LONG] @ [BUTTON_NONE, BUTTON_NONE, BUTTON_NONE] @ [BUTTON_B_SHORT] \<and>
   waitForButtonPress 100 (snd (polls 100 Memory_initial [pressA 0]))
     (pressA 400 # [pressA 410, released 420, released 430, pressB 440, released 450, released 460]) =
     Some (\<lparr>lastButtonTime = 440,
            classifier = \<lparr>state = 0, wasShortPress = False, totalState = 0,
                          initialPressTime = 440, stateChangeTime = 450\<rparr>\<rparr>,
           [released 460])"
  using waitForButtonPress_event_at_entry
    [of 100 "pressA 400" "snd (polls 100 Memory_initial [pressA 0])"
        "[pressA 410, released 420, released 430, pressB 440, released 450, released 460]"
        "\<lparr>lastButtonTime = 440,
            classifier = \<lparr>state = 0, wasShortPress = False, totalState = 0,
                          initialPressTime = 440, stateChangeTime = 450\<rparr>\<rparr>"
        "[released 460]"]
  by (simp add: polls_Cons eval_defs)

section \<open>Waiting with a timeout\<close>

text \<open>
  The deadline is \<open>timeout + entry\<close> in 32 bits, and every iteration of both loops
  compares the tick read after the delay with it. Whatever the buttons do, the call has
  returned at the latest in the first iteration whose tick is greater than the deadline,
  as unsigned numbers.
\<close>

lemma timeout_await_returns:
  assumes "k < length its" and "d < snd (its ! k)"
  shows "\<exists>res. waitForButtonPressOrTimeout_await T d b m its = Some res \<and>
           length its - Suc k \<le>
             length (case res of Inl (m', rest) \<Rightarrow> rest | Inr (b', m', rest) \<Rightarrow> rest)"
  using assms
proof (induction its arbitrary: k b m)
  case Nil
  then show ?case by simp
next
  case (Cons it its)
  show ?case
  proof (cases "b = BUTTON_NONE \<and> \<not> d < snd it")
    case False
    then show ?thesis
      by (auto simp add: case_prod_beta)
  next
    case True
    with Cons.prems obtain k' where k: "k = Suc k'"
      by (cases k) auto
    with Cons.prems have "k' < length its" and "d < snd (its ! k')"
      by simp_all
    from Cons.IH [OF this] True k show ?thesis
      by (simp add: case_prod_beta)
  qed
qed

lemma timeout_drain_returns:
  assumes "k < length its" and "d < snd (its ! k)"
  shows "(\<exists>m' rest. waitForButtonPressOrTimeout_drain T d b m its = Some (Inl (m', rest)) \<and>
            length its - Suc k \<le> length rest) \<or>
         (\<exists>b' m' j. waitForButtonPressOrTimeout_drain T d b m its = Some (Inr (b', m', drop j its)) \<and>
            j \<le> k)"
  using assms
proof (induction its arbitrary: k b m)
  case Nil
  then show ?case by simp
next
  case (Cons it its)
  show ?case
  proof (cases "b \<noteq> BUTTON_NONE \<and> \<not> d < snd it")
    case False
    then consider "b = BUTTON_NONE" | "b \<noteq> BUTTON_NONE" "d < snd it"
      by blast
    then show ?thesis
    proof cases
      case 1
      then have "waitForButtonPressOrTimeout_drain T d b m (it # its)
          = Some (Inr (b, m, drop 0 (it # its)))"
        by simp
      then show ?thesis by blast
    next
      case 2
      then show ?thesis
        by (simp add: case_prod_beta)
    qed
  next
    case True
    with Cons.prems obtain k' where k: "k = Suc k'"
      by (cases k) auto
    with Cons.prems have "k' < length its" and "d < snd (its ! k')"
      by simp_all
    from Cons.IH [OF this, of "fst (getButtonState T (fst it) m)" "snd (getButtonState T (fst it) m)"]
    show ?thesis
    proof
      assume "\<exists>m' rest. waitForButtonPressOrTimeout_drain T d (fst (getButtonState T (fst it) m))
                (snd (getButtonState T (fst it) m)) its = Some (Inl (m', rest)) \<and>
                length its - Suc k' \<le> length rest"
      with True k show ?thesis
        by (simp add: case_prod_beta)
    next
      assume "\<exists>b' m' j. waitForButtonPressOrTimeout_drain T d (fst (getButtonState T (fst it) m))
                (snd (getButtonState T (fst it) m)) its = Some (Inr (b', m', drop j its)) \<and> j \<le> k'"
      then obtain b' m' j where
        "waitForButtonPressOrTimeout_drain T d (fst (getButtonState T (fst it) m))
           (snd (getButtonState T (fst it) m)) its = Some (Inr (b', m', drop j its))"
        and "j \<le> k'"
        by blast
      with True k have
        "waitForButtonPressOrTimeout_drain T d b m (it # its)
           = Some (Inr (b', m', drop (Suc j) (it # its)))" and "Suc j \<le> k"
        by (simp_all add: case_prod_beta)
      then show ?thesis by blast
    qed
  qed
qed

lemma waitForButtonPressOrTimeout_returns:
  assumes "k < length its" and "timeout + entry < snd (its ! k)"
  shows "\<exists>m' rest. waitForButtonPressOrTimeout T timeout entry r0 m its = Some (m', rest) \<and>
           length its - Suc k \<le> length rest"
proof -
  let ?d = "timeout + entry"
  let ?b = "fst (getButtonState T r0 m)"
  let ?m1 = "snd (getButtonState T r0 m)"
  from timeout_drain_returns [OF assms, of T ?b ?m1]
  show ?thesis
  proof
    assume "\<exists>m' rest. waitForButtonPressOrTimeout_drain T ?d ?b ?m1 its = Some (Inl (m', rest)) \<and>
              length its - Suc k \<le> length rest"
    then show ?thesis
      by (auto simp add: waitForButtonPressOrTimeout_def Let_def case_prod_beta)
  next
    assume "\<exists>b' m' j. waitForButtonPressOrTimeout_drain T ?d ?b ?m1 its
              = Some (Inr (b', m', drop j its)) \<and> j \<le> k"
    then obtain b' m' j where
      d: "waitForButtonPressOrTimeout_drain T ?d ?b ?m1 its = Some (Inr (b', m', drop j its))"
      and j: "j \<le> k"
      by blast
    from j assms have "k - j < length (drop j its)" and "?d < snd (drop j its ! (k - j))"
      by simp_all
    from timeout_await_returns [OF this, of T b' m'] obtain res where
      a: "waitForButtonPressOrTimeout_await T ?d b' m' (drop j its) = Some res"
      and len: "length (drop j its) - Suc (k - j) \<le>
          length (case res of Inl (m', rest) \<Rightarrow> rest | Inr (b', m', rest) \<Rightarrow> rest)"
      by blast
    from j have "length (drop j its) - Suc (k - j) = length its - Suc k"
      by simp
    with len d a show ?thesis
      by (cases res) (auto simp add: waitForButtonPressOrTimeout_def Let_def case_prod_beta)
  qed
qed

text \<open>
  With no button pressed the call returns exactly in the first iteration whose tick is
  greater than the deadline, and stays blocked as long as there is none.
\<close>

lemma timeout_await_idle:
  assumes "state (classifier m) = 0" and "\<forall>it\<in>set its. currentState (fst it) = 0"
  shows "waitForButtonPressOrTimeout_await T d BUTTON_NONE m its =
           (case dropWhile (\<lambda>it. \<not> d < snd it) its of
              [] \<Rightarrow> None
            | it # rest \<Rightarrow> Some (Inl (m, rest)))"
  using assms by (induction its) (simp_all add: getButtonState_idle)

lemma waitForButtonPressOrTimeout_idle:
  assumes r0: "currentState r0 = 0" and its: "\<forall>it\<in>set its. currentState (fst it) = 0"
  shows "waitForButtonPressOrTimeout T timeout entry r0 m its =
           (case dropWhile (\<lambda>it. \<not> timeout + entry < snd it) its of
              [] \<Rightarrow> None
            | it # rest \<Rightarrow> Some (snd (getButtonState T r0 m), rest))"
proof -
  let ?d = "timeout + entry"
  let ?b = "fst (getButtonState T r0 m)"
  let ?m1 = "snd (getButtonState T r0 m)"
  define past :: "Iteration list \<Rightarrow> Iteration list"
    where "past = dropWhile (\<lambda>it. \<not> ?d < snd it)"
  have s1: "state (classifier ?m1) = 0"
    using r0 by (cases "state (classifier m) = 0")
      (simp_all add: getButtonState_idle getButtonState_release)
  have await: "waitForButtonPressOrTimeout_await T ?d BUTTON_NONE ?m1 xs =
      (case past xs of [] \<Rightarrow> None | it # rest \<Rightarrow> Some (Inl (?m1, rest)))"
    if "\<forall>it\<in>set xs. currentState (fst it) = 0" for xs
    unfolding past_def by (rule timeout_await_idle [OF s1 that])
  have drain: "waitForButtonPressOrTimeout_drain T ?d BUTTON_NONE ?m1 xs
      = Some (Inr (BUTTON_NONE, ?m1, xs))" for xs
    by (cases xs) simp_all
  have "waitForButtonPressOrTimeout T timeout entry r0 m its =
      (case past its of [] \<Rightarrow> None | it # rest \<Rightarrow> Some (?m1, rest))"
  proof (cases "?b = BUTTON_NONE")
    case True
    then show ?thesis
      by (cases "past its")
         (simp_all add: waitForButtonPressOrTimeout_def Let_def case_prod_beta
            drain await [OF its])
  next
    case False
    show ?thesis
    proof (cases its)
      case Nil
      with False show ?thesis
        by (simp add: waitForButtonPressOrTimeout_def Let_def case_prod_beta past_def)
    next
      case (Cons it its')
      with its have it: "currentState (fst it) = 0"
        and its': "\<forall>it\<in>set its'. currentState (fst it) = 0"
        by simp_all
      have step: "past (it # its') = (if ?d < snd it then it # its' else past its')"
        by (simp add: past_def)
      from False Cons show ?thesis
        by (cases "past its'")
           (simp_all add: waitForButtonPressOrTimeout_def Let_def case_prod_beta
              getButtonState_idle [OF it s1] drain await [OF its'] step)
    qed
  qed
  then show ?thesis
    by (simp add: past_def)
qed

lemma waitForButtonPressOrTimeout_never:
  assumes "timeout + entry = - 1"
    and "currentState r0 = 0" and "\<forall>it\<in>set its. currentState (fst it) = 0"
  shows "waitForButtonPressOrTimeout T timeout entry r0 m its = None"
proof -
  have "\<not> timeout + entry < t" for t
    by (simp add: assms(1) word_order.extremum_strict)
  then have "dropWhile (\<lambda>it. \<not> timeout + entry < snd it) its = []"
    by (induction its) simp_all
  then show ?thesis
    unfolding waitForButtonPressOrTimeout_idle [OF assms(2,3)] by (simp only: list.case)
qed

text \<open>
  Claim C7. \<^verbatim>\<open>waitForButtonPressOrTimeout\<close> computes the deadline, entry tick plus
  timeout, at entry, checks it in every iteration of both loops, and is to return by the
  deadline even if no button is ever pressed. The lemmas above give that for a deadline
  that the counter can exceed. The sum is taken in 32 bits and compared with the tick
  itself, though: entered at tick \<open>0xFFFFFF38\<close> with a timeout of 199 ticks the deadline
  is \<open>0xFFFFFFFF\<close>, which no tick exceeds. With both buttons released throughout, the
  call is still blocked after checks made 299 and 399 ticks after entry, when the counter
  has wrapped around.
\<close>

theorem waitForButtonPressOrTimeout_blocked_past_deadline:
  "(199 :: 32 word) + 0xFFFFFF38 = 0xFFFFFFFF \<and>
   (0x63 :: 32 word) - 0xFFFFFF38 = 299 \<and>
   (0xC7 :: 32 word) - 0xFFFFFF38 = 399 \<and>
   waitForButtonPressOrTimeout 100 199 0xFFFFFF38 (released 0xFFFFFF38) Memory_initial
     [(released 0xFFFFFF9C, 0xFFFFFF9D), (released 0xFFFFFFFE, 0xFFFFFFFF),
      (released 0x62, 0x63), (released 0xC6, 0xC7)] = None"
  by (simp add: waitForButtonPressOrTimeout_def eval_defs)

section \<open>Wrap-around of the tick counter\<close>

text \<open>
  The classifier compares differences of ticks with \<open>LONG_PRESS_MIN\<close>, so its events do
  not change when the origin of the counter is moved, across a wrap-around or not.
\<close>

lemma currentState_shift: "currentState (shift_Reading d r) = currentState r"
  by (simp add: currentState_def shift_Reading_def)

lemma getButtonState_shift_event:
  "fst (getButtonState T (shift_Reading d r) (shift_Memory d m)) = fst (getButtonState T r m)"
  by (simp add: getButtonState_def Let_def isShortPress_def currentState_shift)
     (simp add: shift_Reading_def shift_Memory_def)

lemma getButtonState_shift_classifier:
  "classifier (snd (getButtonState T (shift_Reading d r) (shift_Memory d m))) =
   classifier (shift_Memory d (snd (getButtonState T r m)))"
  by (simp add: getButtonState_def Let_def isShortPress_def currentState_shift)
     (simp add: shift_Reading_def shift_Memory_def)

text \<open>
  Claim C8. Every comparison of elapsed time with a threshold or a deadline is to be
  safe under wrap-around of the counter, by computing the duration as \<open>now - x\<close> in
  modular arithmetic. The classifier does so (lines 67 and 121).
  \<^verbatim>\<open>waitForButtonPressOrTimeout\<close> compares the tick with the deadline directly (lines
  155 and 161), and its behaviour changes with the origin of the counter: entered at
  tick 0 with a timeout of \<open>0x200\<close> ticks it is still waiting 4 ticks later; the same
  run entered at tick \<open>0xFFFFFF00\<close> has the deadline \<open>0x100\<close> and returns in its first
  iteration, 2 ticks after entry.
\<close>

theorem waitForButtonPressOrTimeout_depends_on_absolute_ticks:
  "waitForButtonPressOrTimeout 100 0x200 0 (released 0) Memory_initial
     [(released 1, 2), (released 3, 4)] = None \<and>
   (0x200 :: 32 word) + 0xFFFFFF00 = 0x100 \<and>
   (0xFFFFFF02 :: 32 word) - 0xFFFFFF00 = 2 \<and>
   waitForButtonPressOrTimeout 100 0x200 0xFFFFFF00 (released 0xFFFFFF00) Memory_initial
     [(released 0xFFFFFF01, 0xFFFFFF02), (released 0xFFFFFF03, 0xFFFFFF04)] =
     Some (Memory_initial, [(released 0xFFFFFF03, 0xFFFFFF04)])"
  by (simp add: waitForButtonPressOrTimeout_def eval_defs)

end
